theory Spec2Isabelle
  imports Complex_Main
begin

section \<open>Text\<close>

text \<open>
  Python strings are sequences of Unicode code points; slicing and \<^verbatim>\<open>len\<close> count code
  points. A string is modelled as the list of its code points, so the symbols the two scripts
  print in front of their messages are single numbers. \<open>u\<close> embeds an ASCII literal.
\<close>

type_synonym ustring = "nat list"

definition u :: "string \<Rightarrow> ustring" where
  "u s = map of_char s"

text \<open>Decimal rendering of an integer, as \<^verbatim>\<open>str\<close> and the f-string fields do it.\<close>

fun digits :: "nat \<Rightarrow> ustring" where
  "digits n = (if n < 10 then [48 + n] else digits (n div 10) @ [48 + n mod 10])"

declare digits.simps [simp del]

definition str :: "int \<Rightarrow> ustring" where
  "str i = (if i < 0 then 45 # digits (nat (- i)) else digits (nat i))"

section \<open>Errors\<close>

datatype py_error = OverflowError | ZeroDivisionError | ValueError
  | NotADirectoryError | FileNotFoundError | UnicodeEncodeError

definition err_bind :: "py_error + 'a \<Rightarrow> ('a \<Rightarrow> py_error + 'b) \<Rightarrow> py_error + 'b" where
  "err_bind r k = (case r of Inl e \<Rightarrow> Inl e | Inr x \<Rightarrow> k x)"

section \<open>Binary floating point\<close>

text \<open>
  Python's \<^verbatim>\<open>float\<close> is an IEEE 754 double. A finite double is \<open>Float m e\<close>, standing
  for \<open>m * 2 ^ e\<close>; arithmetic rounds the exact result to 53 significant bits, ties to the
  even mantissa, with the least exponent \<open>-1074\<close> of the subnormal range and infinity from
  \<open>2 ^ 1024\<close> on. Signed zeros are not distinguished.
\<close>

datatype py_float = Float int int | PInf | NInf | NaN

fun bit_length :: "nat \<Rightarrow> nat" where
  "bit_length n = (if n = 0 then 0 else Suc (bit_length (n div 2)))"

declare bit_length.simps [simp del]

text \<open>The quotient \<open>n / d\<close> rounded to the nearest integer, ties to even (\<open>0 \<le> n\<close>, \<open>0 < d\<close>).\<close>

definition rhe_div :: "int \<Rightarrow> int \<Rightarrow> int" where
  "rhe_div n d =
     (let q = n div d; r = n mod d
      in if 2 * r < d then q else if d < 2 * r then q + 1
         else if even q then q else q + 1)"

text \<open>The integer \<open>k\<close> with \<open>2 ^ k \<le> a / b < 2 ^ (k + 1)\<close>, for positive \<open>a\<close> and \<open>b\<close>.\<close>

definition floor_log2 :: "int \<Rightarrow> int \<Rightarrow> int" where
  "floor_log2 a b =
     (let d = int (bit_length (nat a)) - int (bit_length (nat b))
      in if (if 0 \<le> d then b * 2 ^ nat d \<le> a else b \<le> a * 2 ^ nat (- d))
         then d else d - 1)"

text \<open>The double nearest to \<open>a / b\<close>, for \<open>0 \<le> a\<close> and \<open>0 < b\<close>.\<close>

definition round_ratio :: "int \<Rightarrow> int \<Rightarrow> py_float" where
  "round_ratio a b =
     (if a = 0 then Float 0 0
      else let e = max (floor_log2 a b - 52) (- 1074);
               m = (if 0 \<le> e then rhe_div a (b * 2 ^ nat e)
                    else rhe_div (a * 2 ^ nat (- e)) b)
           in if 0 \<le> e \<and> 2 ^ 1024 \<le> m * 2 ^ nat e then PInf else Float m e)"

definition float_neg :: "py_float \<Rightarrow> py_float" where
  "float_neg x = (case x of Float m e \<Rightarrow> Float (- m) e | PInf \<Rightarrow> NInf
                  | NInf \<Rightarrow> PInf | NaN \<Rightarrow> NaN)"

definition round_signed :: "int \<Rightarrow> int \<Rightarrow> py_float" where
  "round_signed a b = (if a < 0 then float_neg (round_ratio (- a) b) else round_ratio a b)"

text \<open>The double nearest to \<open>m * 2 ^ e\<close>.\<close>

definition round_scaled :: "int \<Rightarrow> int \<Rightarrow> py_float" where
  "round_scaled m e =
     (if 0 \<le> e then round_signed (m * 2 ^ nat e) 1 else round_signed m (2 ^ nat (- e)))"

text \<open>
  \<^verbatim>\<open>a / b\<close> on two \<^verbatim>\<open>int\<close>s: the correctly rounded quotient; a quotient too large
  for a double raises \<^verbatim>\<open>OverflowError\<close>.
\<close>

definition true_divide :: "int \<Rightarrow> int \<Rightarrow> py_error + py_float" where
  "true_divide a b =
     (if b = 0 then Inl ZeroDivisionError
      else case round_signed (a * sgn b) \<bar>b\<bar> of
             Float m e \<Rightarrow> Inr (Float m e)
           | _ \<Rightarrow> Inl OverflowError)"

text \<open>\<^verbatim>\<open>float(k)\<close>, applied implicitly to the \<^verbatim>\<open>int\<close> operand of a mixed product.\<close>

definition int_to_float :: "int \<Rightarrow> py_error + py_float" where
  "int_to_float k =
     (case round_signed k 1 of Float m e \<Rightarrow> Inr (Float m e) | _ \<Rightarrow> Inl OverflowError)"

fun float_sign :: "py_float \<Rightarrow> int" where
  "float_sign (Float m e) = sgn m"
| "float_sign PInf = 1"
| "float_sign NInf = - 1"
| "float_sign NaN = 0"

text \<open>The product of two doubles; it overflows to an infinity without raising.\<close>

fun float_mul :: "py_float \<Rightarrow> py_float \<Rightarrow> py_float" where
  "float_mul (Float m1 e1) (Float m2 e2) = round_scaled (m1 * m2) (e1 + e2)"
| "float_mul NaN y = NaN"
| "float_mul x NaN = NaN"
| "float_mul x y =
     (let s = float_sign x * float_sign y
      in if s = 0 then NaN else if 0 < s then PInf else NInf)"

text \<open>\<^verbatim>\<open>int(x)\<close>: truncation towards zero.\<close>

fun int_of_float :: "py_float \<Rightarrow> py_error + int" where
  "int_of_float (Float m e) =
     Inr (if 0 \<le> e then m * 2 ^ nat e else sgn m * (\<bar>m\<bar> div 2 ^ nat (- e)))"
| "int_of_float NaN = Inl ValueError"
| "int_of_float x = Inl OverflowError"

text \<open>The exact value of a finite double.\<close>

fun float_val :: "py_float \<Rightarrow> rat" where
  "float_val (Float m e) = of_int m * power_int 2 e"
| "float_val x = 0"

text \<open>
  \<^verbatim>\<open>f"{x:.2f}"\<close>: the exact value of the double rounded to hundredths, ties to even,
  and written with two digits after the point.
\<close>

definition hundredths :: "py_float \<Rightarrow> int" where
  "hundredths x =
     (case x of Float m e \<Rightarrow>
        (if 0 \<le> e then \<bar>m\<bar> * 2 ^ nat e * 100 else rhe_div (\<bar>m\<bar> * 100) (2 ^ nat (- e)))
      | _ \<Rightarrow> 0)"

definition two_decimals :: "int \<Rightarrow> ustring" where
  "two_decimals h =
     digits (nat (h div 100)) @ [46, 48 + nat (h mod 100) div 10, 48 + nat (h mod 100) mod 10]"

definition format_2f :: "py_float \<Rightarrow> ustring" where
  "format_2f x =
     (case x of
        Float m e \<Rightarrow> (if m < 0 then [45] else []) @ two_decimals (hundredths x)
      | PInf \<Rightarrow> u ''inf'' | NInf \<Rightarrow> u ''-inf'' | NaN \<Rightarrow> u ''nan'')"

section \<open>The Progress Reporter: constants and the completion percentage\<close>

definition CHECKPOINT_TIME :: ustring where
  "CHECKPOINT_TIME = u ''2025-10-23 15:38:30''"

definition CHECKPOINT_COUNT :: int where
  "CHECKPOINT_COUNT = 40"

definition TOTAL_TESTS :: int where
  "TOTAL_TESTS = 66"

text \<open>\<^verbatim>\<open>int(test_count/TOTAL_TESTS*100)\<close>\<close>

definition percent :: "int \<Rightarrow> py_error + int" where
  "percent test_count =
     err_bind (true_divide test_count TOTAL_TESTS) (\<lambda>q.
     err_bind (int_to_float 100) (\<lambda>h.
     int_of_float (float_mul q h)))"

section \<open>The file system and the process\<close>

text \<open>
  A snapshot of the file system is a tree. A regular file has a size in bytes, every node a
  modification time (seconds since the epoch), a directory its entries in the order the
  operating system lists them. \<open>Other\<close> stands for what is neither a regular file nor a
  directory. A path is the list of names leading from the root to a node. Permissions,
  symbolic links and changes made by other processes while a script runs are outside the
  model.
\<close>

datatype node = File nat rat | Dir rat "(ustring \<times> node) list" | Other rat

type_synonym path = "ustring list"

fun lookup :: "node \<Rightarrow> path \<Rightarrow> node option" where
  "lookup n [] = Some n"
| "lookup (Dir t es) (c # cs) =
     (case map_of es c of None \<Rightarrow> None | Some ch \<Rightarrow> lookup ch cs)"
| "lookup n (c # cs) = None"

fun is_dir :: "node \<Rightarrow> bool" where
  "is_dir (Dir t es) = True"
| "is_dir n = False"

fun is_file :: "node \<Rightarrow> bool" where
  "is_file (File s t) = True"
| "is_file n = False"

fun st_mtime :: "node \<Rightarrow> rat" where
  "st_mtime (File s t) = t"
| "st_mtime (Dir t es) = t"
| "st_mtime (Other t) = t"

fun st_size :: "node \<Rightarrow> nat" where
  "st_size (File s t) = s"
| "st_size n = 0"

text \<open>
  A script runs on a world: the file system, what has been written to standard output (one
  entry for each call of \<^verbatim>\<open>print\<close>), and the encoding of standard output, given by
  the code points beyond ASCII it can encode (all of them for UTF-8, none for ASCII, some for
  a code page such as cp1252). A computation takes the world and returns the world it
  leaves, with its value or the exception that ended it.
\<close>

record world =
  files :: node
  stdout :: "ustring list"
  encodes :: "nat \<Rightarrow> bool"

definition can_encode :: "world \<Rightarrow> ustring \<Rightarrow> bool" where
  "can_encode w s = (\<forall>c \<in> set s. c < 128 \<or> encodes w c)"

type_synonym 'a py = "world \<Rightarrow> (py_error + 'a) \<times> world"

definition py_return :: "'a \<Rightarrow> 'a py" where
  "py_return x = (\<lambda>w. (Inr x, w))"

definition py_raise :: "py_error \<Rightarrow> 'a py" where
  "py_raise e = (\<lambda>w. (Inl e, w))"

definition py_bind :: "'a py \<Rightarrow> ('a \<Rightarrow> 'b py) \<Rightarrow> 'b py" where
  "py_bind m k = (\<lambda>w. case m w of (Inl e, w') \<Rightarrow> (Inl e, w') | (Inr x, w') \<Rightarrow> k x w')"

definition py_then :: "unit py \<Rightarrow> 'b py \<Rightarrow> 'b py" where
  "py_then m k = py_bind m (\<lambda>_. k)"

definition py_lift :: "py_error + 'a \<Rightarrow> 'a py" where
  "py_lift r = (\<lambda>w. (r, w))"

text \<open>
  \<^verbatim>\<open>print\<close> encodes the whole text before it writes: a text standard output cannot
  encode raises \<^verbatim>\<open>UnicodeEncodeError\<close> and nothing of it is written.
\<close>

definition print :: "ustring \<Rightarrow> unit py" where
  "print s = (\<lambda>w. if can_encode w s then (Inr (), w\<lparr>stdout := stdout w @ [s]\<rparr>)
                   else (Inl UnicodeEncodeError, w))"

text \<open>The world after the lines \<open>ls\<close> have been written to standard output.\<close>

definition wrote :: "world \<Rightarrow> ustring list \<Rightarrow> world" where
  "wrote w ls = w\<lparr>stdout := stdout w @ ls\<rparr>"

definition os_path_exists :: "path \<Rightarrow> bool py" where
  "os_path_exists p = (\<lambda>w. (Inr (lookup (files w) p \<noteq> None), w))"

definition os_path_isdir :: "path \<Rightarrow> bool py" where
  "os_path_isdir p =
     (\<lambda>w. (Inr (case lookup (files w) p of Some n \<Rightarrow> is_dir n | None \<Rightarrow> False), w))"

definition os_listdir :: "path \<Rightarrow> ustring list py" where
  "os_listdir p =
     (\<lambda>w. (case lookup (files w) p of
              Some (Dir t es) \<Rightarrow> Inr (map fst es)
            | Some n \<Rightarrow> Inl NotADirectoryError
            | None \<Rightarrow> Inl FileNotFoundError, w))"

definition os_path_getmtime :: "path \<Rightarrow> rat py" where
  "os_path_getmtime p =
     (\<lambda>w. (case lookup (files w) p of
              Some n \<Rightarrow> Inr (st_mtime n) | None \<Rightarrow> Inl FileNotFoundError, w))"

text \<open>A list comprehension with a condition, and a \<^verbatim>\<open>for\<close> loop over a list.\<close>

fun py_filter :: "('a \<Rightarrow> bool py) \<Rightarrow> 'a list \<Rightarrow> 'a list py" where
  "py_filter c [] = py_return []"
| "py_filter c (x # xs) =
     py_bind (c x) (\<lambda>b. py_bind (py_filter c xs) (\<lambda>ys.
       py_return (if b then x # ys else ys)))"

fun py_fold :: "('a \<Rightarrow> 'b \<Rightarrow> 'b py) \<Rightarrow> 'a list \<Rightarrow> 'b \<Rightarrow> 'b py" where
  "py_fold f [] acc = py_return acc"
| "py_fold f (x # xs) acc = py_bind (f x acc) (\<lambda>acc'. py_fold f xs acc')"

fun py_for :: "'a list \<Rightarrow> ('a \<Rightarrow> unit py) \<Rightarrow> unit py" where
  "py_for [] body = py_return ()"
| "py_for (x # xs) body = py_then (body x) (py_for xs body)"

section \<open>The Progress Reporter\<close>

text \<open>
  What the script takes from its surroundings: the formatted current time, the rendering of
  a modification time in local time as \<^verbatim>\<open>%H:%M:%S\<close>, and the results directory
  (\<^verbatim>\<open>script_dir/../../completed/test-results-raw\<close>) as a resolved path and as the
  text the script prints for it.
\<close>

record env =
  current_time :: ustring
  time_str :: "rat \<Rightarrow> ustring"
  results_dir :: path
  results_dir_str :: ustring

text \<open>Line 30: the number of entries of the results directory that are directories.\<close>

definition count_tests :: "path \<Rightarrow> int py" where
  "count_tests dir =
     py_bind (os_listdir dir) (\<lambda>names.
     py_bind (py_filter (\<lambda>d. os_path_isdir (dir @ [d])) names) (\<lambda>ds.
     py_return (int (length ds))))"

definition tests_completed_msg :: "int \<Rightarrow> int \<Rightarrow> ustring" where
  "tests_completed_msg test_count p =
     u ''Tests Completed: '' @ str test_count @ u ''/'' @ str TOTAL_TESTS
       @ u '' ('' @ str p @ u ''%)''"

text \<open>Lines 32 to 34.\<close>

definition report_counts :: "int \<Rightarrow> unit py" where
  "report_counts test_count =
     py_bind (py_lift (percent test_count)) (\<lambda>p.
     py_then (print (tests_completed_msg test_count p)) (
     py_then (print (u ''Checkpoint Count: '' @ str CHECKPOINT_COUNT @ u ''/''
                       @ str TOTAL_TESTS @ u '' (61%)'')) (
     print (replicate 60 45))))"

definition progress_msg :: "int \<Rightarrow> ustring" where
  "progress_msg progress =
     [0x2705] @ u '' Progress: +'' @ str progress @ u '' tests since checkpoint''"

definition remaining_msg :: "int \<Rightarrow> ustring" where
  "remaining_msg remaining = [0x23F3] @ u '' Remaining: '' @ str remaining @ u '' tests''"

definition stalled_msg :: ustring where
  "stalled_msg = [0x26A0, 0xFE0F]
     @ u ''  No progress since checkpoint (tests may have stalled or be slow)''"

definition decreased_msg :: ustring where
  "decreased_msg = [0x274C] @ u '' Test count decreased (unexpected)''"

text \<open>Lines 36 to 44: the comparison with the checkpoint.\<close>

definition compare_checkpoint :: "int \<Rightarrow> unit py" where
  "compare_checkpoint test_count =
     (if test_count > CHECKPOINT_COUNT then
        py_then (print (progress_msg (test_count - CHECKPOINT_COUNT)))
                (print (remaining_msg (TOTAL_TESTS - test_count)))
      else if test_count = CHECKPOINT_COUNT then print stalled_msg
      else print decreased_msg)"

text \<open>Lines 52 to 57: the directories with their modification times.\<close>

definition collect_test_dirs :: "path \<Rightarrow> (ustring \<times> rat) list py" where
  "collect_test_dirs dir =
     py_bind (os_listdir dir) (\<lambda>names.
     py_fold (\<lambda>d test_dirs.
        py_bind (os_path_isdir (dir @ [d])) (\<lambda>b.
        if b then py_bind (os_path_getmtime (dir @ [d])) (\<lambda>mtime.
                  py_return (test_dirs @ [(d, mtime)]))
        else py_return test_dirs)) names [])"

text \<open>
  Line 60: \<^verbatim>\<open>sort(key=..., reverse=True)\<close> is a stable sort in descending order of the
  key: the list is reversed, sorted stably in ascending order and reversed again.
\<close>

definition sort_recent :: "(ustring \<times> rat) list \<Rightarrow> (ustring \<times> rat) list" where
  "sort_recent test_dirs = rev (sort_key snd (rev test_dirs))"

fun enumerate_from :: "int \<Rightarrow> 'a list \<Rightarrow> (int \<times> 'a) list" where
  "enumerate_from i [] = []"
| "enumerate_from i (x # xs) = (i, x) # enumerate_from (i + 1) xs"

definition recent_msg :: "(rat \<Rightarrow> ustring) \<Rightarrow> int \<times> ustring \<times> rat \<Rightarrow> ustring" where
  "recent_msg fmt = (\<lambda>(i, test_name, mtime).
     str i @ u ''. ['' @ fmt mtime @ u ''] '' @ take 70 test_name)"

text \<open>Lines 46 to 65.\<close>

definition show_recent :: "env \<Rightarrow> unit py" where
  "show_recent ev =
     py_then (print ([10] @ replicate 60 61)) (
     py_then (print (u ''Most Recent Test Results (last 5):'')) (
     py_then (print (replicate 60 61)) (
     py_bind (collect_test_dirs (results_dir ev)) (\<lambda>test_dirs.
     py_for (enumerate_from 1 (take 5 (sort_recent test_dirs)))
            (\<lambda>row. print (recent_msg (time_str ev) row))))))"

definition not_found_msg :: "env \<Rightarrow> ustring" where
  "not_found_msg ev = [0x274C] @ u '' Results directory not found: '' @ results_dir_str ev"

text \<open>The whole script.\<close>

definition check_test_progress :: "env \<Rightarrow> unit py" where
  "check_test_progress ev =
     py_then (print (u ''Current Time: '' @ current_time ev)) (
     py_then (print (u ''Checkpoint Time: '' @ CHECKPOINT_TIME)) (
     py_then (print (replicate 60 45)) (
     py_then (py_bind (os_path_exists (results_dir ev)) (\<lambda>ex.
        if ex then
          py_bind (count_tests (results_dir ev)) (\<lambda>test_count.
          py_then (report_counts test_count) (
          py_then (compare_checkpoint test_count) (
          show_recent ev)))
        else print (not_found_msg ev))) (
     print ([10] @ replicate 60 61)))))"

section \<open>The Project-State Counter\<close>

text \<open>
  The operations of \<^verbatim>\<open>pathlib\<close> the script uses. \<^verbatim>\<open>glob("*.json")\<close> yields the
  entries of a directory whose name ends in \<^verbatim>\<open>.json\<close>, of whatever kind (names are
  compared as on a POSIX system, by case); \<^verbatim>\<open>rglob("*")\<close> yields everything below
  a directory, the entries of a directory before what lies below them. On what is not a
  directory both yield nothing.
\<close>

definition matches_json :: "ustring \<Rightarrow> bool" where
  "matches_json name = (5 \<le> length name \<and> drop (length name - 5) name = u ''.json'')"

definition path_glob_json :: "path \<Rightarrow> path list py" where
  "path_glob_json p =
     (\<lambda>w. (Inr (case lookup (files w) p of
                   Some (Dir t es) \<Rightarrow> map (\<lambda>name. p @ [name]) (filter matches_json (map fst es))
                 | _ \<Rightarrow> []), w))"

fun below :: "path \<Rightarrow> node \<Rightarrow> path list" where
  "below p (Dir t es) =
     map (\<lambda>e. p @ [fst e]) es @ concat (map (\<lambda>e. below (p @ [fst e]) (snd e)) es)"
| "below p n = []"

definition path_rglob :: "path \<Rightarrow> path list py" where
  "path_rglob p =
     (\<lambda>w. (Inr (case lookup (files w) p of Some n \<Rightarrow> below p n | None \<Rightarrow> []), w))"

definition path_is_dir :: "path \<Rightarrow> bool py" where
  "path_is_dir p = os_path_isdir p"

definition path_is_file :: "path \<Rightarrow> bool py" where
  "path_is_file p =
     (\<lambda>w. (Inr (case lookup (files w) p of Some n \<Rightarrow> is_file n | None \<Rightarrow> False), w))"

definition path_stat_size :: "path \<Rightarrow> int py" where
  "path_stat_size p =
     (\<lambda>w. (case lookup (files w) p of
              Some n \<Rightarrow> Inr (int (st_size n)) | None \<Rightarrow> Inl FileNotFoundError, w))"

text \<open>
  What the script takes from its surroundings: the home directory and the rendering of a
  path as text.
\<close>

record penv =
  home :: path
  path_str :: "path \<Rightarrow> ustring"

definition qcut_dir :: "penv \<Rightarrow> path" where
  "qcut_dir pe = home pe @ [u ''AppData'', u ''Roaming'', u ''qcut'']"

definition no_qcut_msg :: ustring where
  "no_qcut_msg = [0x274C] @ u '' QCut directory does not exist - no projects found''"

definition projects_msg :: "int \<Rightarrow> ustring" where
  "projects_msg project_files =
     [0x1F4C1] @ u '' Projects folder: '' @ str project_files @ u '' JSON files''"

definition no_projects_msg :: ustring where
  "no_projects_msg = [0x1F4C1] @ u '' Projects folder: does not exist''"

text \<open>Lines 28 to 34: the number of project files.\<close>

definition count_project_files :: "path \<Rightarrow> int py" where
  "count_project_files dir =
     py_bind (os_path_exists (dir @ [u ''projects''])) (\<lambda>ex.
     if ex then
       py_bind (path_glob_json (dir @ [u ''projects''])) (\<lambda>found.
       py_then (print (projects_msg (int (length found)))) (
       py_return (int (length found))))
     else py_then (print no_projects_msg) (py_return 0))"

definition total_size_msg :: "py_float \<Rightarrow> ustring" where
  "total_size_msg size_mb = u ''   - Total size: '' @ format_2f size_mb @ u '' MB''"

text \<open>Lines 49 to 51: the size of the regular files of the store.\<close>

definition report_size :: "path list \<Rightarrow> unit py" where
  "report_size db_regular_files =
     py_bind (py_fold (\<lambda>f total.
        py_bind (os_path_exists f) (\<lambda>ex.
        if ex then py_bind (path_stat_size f) (\<lambda>sz. py_return (total + sz))
        else py_return total)) db_regular_files 0) (\<lambda>total_size.
     py_bind (py_lift (true_divide total_size (1024 * 1024))) (\<lambda>size_mb.
     print (total_size_msg size_mb)))"

text \<open>Lines 37 to 53.\<close>

definition report_indexeddb :: "path \<Rightarrow> unit py" where
  "report_indexeddb indexeddb_dir =
     py_bind (os_path_exists indexeddb_dir) (\<lambda>ex.
     if ex then
       py_bind (path_rglob indexeddb_dir) (\<lambda>db_files.
       py_bind (py_filter path_is_dir db_files) (\<lambda>db_dirs.
       py_bind (py_filter path_is_file db_files) (\<lambda>db_regular_files.
       py_then (print ([0x1F4BE] @ u '' IndexedDB exists:'')) (
       py_then (print (u ''   - '' @ str (int (length db_dirs)) @ u '' directories'')) (
       py_then (print (u ''   - '' @ str (int (length db_regular_files)) @ u '' files'')) (
       report_size db_regular_files))))))
     else print ([0x1F4BE] @ u '' IndexedDB: does not exist (clean)''))"

definition storage_dirs :: "ustring list" where
  "storage_dirs = [u ''Local Storage'', u ''Session Storage'', u ''blob_storage'',
     u ''File System'']"

text \<open>Lines 56 to 62.\<close>

definition report_storage :: "path \<Rightarrow> unit py" where
  "report_storage dir =
     py_for storage_dirs (\<lambda>storage.
       py_bind (os_path_exists (dir @ [storage])) (\<lambda>ex.
       if ex then
         py_bind (path_rglob (dir @ [storage])) (\<lambda>found.
         py_bind (py_filter path_is_file found) (\<lambda>fs.
         print ([0x1F4E6] @ u '' '' @ storage @ u '': '' @ str (int (length fs))
                  @ u '' files'')))
       else py_return ()))"

definition clean_msg :: ustring where
  "clean_msg = [0x2705] @ u '' DATABASE IS CLEAN - No projects found''"

definition partially_clean_msg :: ustring where
  "partially_clean_msg = [0x26A0, 0xFE0F]
     @ u ''  PARTIALLY CLEAN - No project files, but IndexedDB exists''"

definition has_data_msg :: "int \<Rightarrow> ustring" where
  "has_data_msg project_files =
     [0x274C] @ u '' DATABASE HAS DATA - '' @ str project_files @ u '' project files found''"

text \<open>Lines 68 to 75: the classification.\<close>

definition classify :: "int \<Rightarrow> path \<Rightarrow> unit py" where
  "classify project_files indexeddb_dir =
     py_bind (if project_files = 0
              then py_bind (os_path_exists indexeddb_dir) (\<lambda>ex. py_return (\<not> ex))
              else py_return False) (\<lambda>c1.
     if c1 then print clean_msg
     else py_bind (if project_files = 0 then os_path_exists indexeddb_dir
                   else py_return False) (\<lambda>c2.
       if c2 then
         py_then (print partially_clean_msg)
           (print (u ''   This means cleanup deleted files but not the database''))
       else
         py_then (print (has_data_msg project_files))
           (print (u ''   Cleanup may not be working correctly''))))"

definition closing_lines :: "ustring list" where
  "closing_lines =
     [replicate 70 61,
      [10, 0x1F4A1] @ u '' TIP: Run this script BEFORE and AFTER tests to verify cleanup'',
      u ''   Before: python count-projects.py > before.txt'',
      u ''   After:  python count-projects.py > after.txt'',
      u ''   Compare: diff before.txt after.txt'' @ [10]]"

definition banner_lines :: "penv \<Rightarrow> ustring list" where
  "banner_lines pe =
     [replicate 70 61,
      u ''QCut Project Counter - Understanding Database State'',
      replicate 70 61,
      [10] @ u ''Checking directory: '' @ path_str pe (qcut_dir pe) @ [10]]"

text \<open>The whole function.\<close>

definition count_projects :: "penv \<Rightarrow> unit py" where
  "count_projects pe =
     py_then (py_for (banner_lines pe) print) (
     py_bind (os_path_exists (qcut_dir pe)) (\<lambda>ex.
     if \<not> ex then print no_qcut_msg
     else
       py_bind (count_project_files (qcut_dir pe)) (\<lambda>project_files.
       py_then (report_indexeddb (qcut_dir pe @ [u ''IndexedDB''])) (
       py_then (report_storage (qcut_dir pe)) (
       py_then (py_for [[10] @ replicate 70 61, u ''SUMMARY'', replicate 70 61] print) (
       py_then (classify project_files (qcut_dir pe @ [u ''IndexedDB''])) (
       py_for closing_lines print)))))))"

section \<open>An example tree\<close>

definition example_tree :: node where
  "example_tree = Dir 0 [(u ''r'', Dir 9
     [(u ''a'', Dir 1 [(u ''x'', Dir 5 [])]), (u ''f'', File 3 2), (u ''b'', Dir 2 [])])]"

section \<open>Notions used in the properties\<close>

text \<open>
  A computation is steady when, from every world, it leaves the file system and the encoding
  of standard output as they were and only adds lines to standard output.
\<close>

definition steady :: "'a py \<Rightarrow> bool" where
  "steady m = (\<forall>w. files (snd (m w)) = files w \<and> encodes (snd (m w)) = encodes w
                 \<and> (\<exists>ls. stdout (snd (m w)) = stdout w @ ls))"

text \<open>
  Worlds for the examples: a file system with nothing written yet, on a standard output
  that encodes every code point (as UTF-8 does every character) or only ASCII.
\<close>

definition utf8_world :: "node \<Rightarrow> world" where
  "utf8_world fs = \<lparr>files = fs, stdout = [], encodes = (\<lambda>c. True)\<rparr>"

definition ascii_world :: "node \<Rightarrow> world" where
  "ascii_world fs = \<lparr>files = fs, stdout = [], encodes = (\<lambda>c. False)\<rparr>"

text \<open>
  The surroundings of the examples: the results directory is \<^verbatim>\<open>/r\<close>, and a
  modification time is rendered by its whole seconds.
\<close>

definition example_env :: env where
  "example_env = \<lparr>current_time = u ''2025-10-23 16:00:00'', time_str = (\<lambda>t. str \<lfloor>t\<rfloor>),
     results_dir = [u ''r''], results_dir_str = u ''/r''\<rparr>"

text \<open>A results directory \<^verbatim>\<open>/r\<close> holding the directories \<^verbatim>\<open>0\<close> to \<^verbatim>\<open>k - 1\<close>.\<close>

definition numbered_entries :: "nat \<Rightarrow> (ustring \<times> node) list" where
  "numbered_entries k = map (\<lambda>i. (str (int i), Dir (of_nat i) [])) [0..<k]"

definition numbered_dirs :: "nat \<Rightarrow> node" where
  "numbered_dirs k = Dir 0 [(u ''r'', Dir 9 (numbered_entries k))]"

text \<open>
  A results directory \<^verbatim>\<open>/r\<close> with a directory whose name has 75 characters, a file
  and the directories \<^verbatim>\<open>0\<close> to \<^verbatim>\<open>5\<close>.
\<close>

definition recent_tree :: node where
  "recent_tree = Dir 0 [(u ''r'', Dir 9
     ([(u ''xxxxxxxxxxxxxxxxxxxxxxxxxxxxxxxxxxxxxxxxxxxxxxxxxxxxxxxxxxxxxxxxxxxxxxxxxxx'',
        Dir 100 []),
       (u ''notes.txt'', File 3 50)] @ numbered_entries 6))]"

section \<open>Properties\<close>

lemma bit_length_bounds:
  "0 < n \<Longrightarrow> 2 ^ (bit_length n - 1) \<le> n \<and> n < 2 ^ bit_length n"
proof (induction n rule: bit_length.induct)
  case (1 n)
  show ?case
  proof (cases "n div 2 = 0")
    case True
    with 1(2) have "n = 1" by (auto simp: div_eq_0_iff)
    then show ?thesis by (simp add: bit_length.simps)
  next
    case False
    then have pos: "0 < n div 2" by simp
    from 1(1)[OF _ pos] 1(2)
    have ih: "2 ^ (bit_length (n div 2) - 1) \<le> n div 2" "n div 2 < 2 ^ bit_length (n div 2)"
      by auto
    have bl: "bit_length n = Suc (bit_length (n div 2))"
      using 1(2) by (subst bit_length.simps) simp
    have bp: "0 < bit_length (n div 2)"
      using pos by (subst bit_length.simps) simp
    then obtain j where j: "bit_length (n div 2) = Suc j" by (cases "bit_length (n div 2)") auto
    from ih j have "2 * 2 ^ j \<le> n" "n < 2 * 2 ^ Suc j" by auto
    then show ?thesis by (simp add: bl j)
  qed
qed

lemma rhe_div_error:
  assumes "0 < d"
  shows "\<bar>(of_int (rhe_div n d) :: rat) - of_int n / of_int d\<bar> \<le> 1 / 2"
proof -
  define q where "q = n div d"
  define r where "r = n mod d"
  have n: "n = q * d + r" by (simp add: q_def r_def)
  have r: "0 \<le> r" "r < d" using assms by (simp_all add: r_def)
  have frac: "(of_int n :: rat) / of_int d = of_int q + of_int r / of_int d"
    using assms by (simp add: n field_simps)
  have r1: "(0::rat) \<le> of_int r / of_int d" "(of_int r :: rat) / of_int d < 1"
    using r assms by simp_all
  have h1: "(of_int r :: rat) / of_int d \<le> 1 / 2" if "2 * r < d"
  proof -
    from that have "(of_int (2 * r) :: rat) < of_int d" by (simp only: of_int_less_iff)
    then show ?thesis using assms by (simp add: field_simps)
  qed
  have h2: "(1::rat) / 2 \<le> of_int r / of_int d" if "d \<le> 2 * r"
  proof -
    from that have "(of_int d :: rat) \<le> of_int (2 * r)" by (simp only: of_int_le_iff)
    then show ?thesis using assms by (simp add: field_simps)
  qed
  show ?thesis
    unfolding rhe_div_def Let_def q_def[symmetric] r_def[symmetric] frac
    using r1 h1 h2 by (auto simp: abs_if)
qed

lemma rhe_div_exact: "d dvd n \<Longrightarrow> 0 < d \<Longrightarrow> rhe_div n d = n div d"
  by (auto simp: rhe_div_def Let_def)

lemma pi2_pos [simp]: "0 < power_int (2::rat) k"
  by (simp add: power_int_def)

lemma pi2_add: "power_int (2::rat) (i + j) = power_int 2 i * power_int 2 j"
  by (simp add: power_int_add)

lemma pi2_diff: "power_int (2::rat) (i - j) = power_int 2 i / power_int 2 j"
  by (simp add: power_int_diff)

lemma pi2_nat: "power_int (2::rat) (int n) = 2 ^ n"
  by simp

lemma scaled_le_iff:
  assumes "0 < b"
  shows "(if 0 \<le> d then b * 2 ^ nat d \<le> a else b \<le> a * 2 ^ nat (- d))
         \<longleftrightarrow> power_int 2 d * of_int b \<le> (of_int a :: rat)"
proof (cases "0 \<le> d")
  case True
  have "(b * 2 ^ nat d \<le> a) = ((of_int (b * 2 ^ nat d) :: rat) \<le> of_int a)"
    by (simp only: of_int_le_iff)
  with True show ?thesis by (simp add: power_int_def mult.commute)
next
  case False
  have "(b \<le> a * 2 ^ nat (- d)) = ((of_int b :: rat) \<le> of_int (a * 2 ^ nat (- d)))"
    by (simp only: of_int_le_iff)
  with False show ?thesis by (simp add: power_int_def field_simps)
qed

lemma bit_length_rat:
  assumes "0 < a"
  shows "power_int 2 (int (bit_length (nat a)) - 1) \<le> (of_int a :: rat)"
    and "(of_int a :: rat) < power_int 2 (int (bit_length (nat a)))"
proof -
  from assms have n: "0 < nat a" by simp
  from bit_length_bounds[OF n]
  have b: "2 ^ (bit_length (nat a) - 1) \<le> nat a" "nat a < 2 ^ bit_length (nat a)" by auto
  have pos: "0 < bit_length (nat a)" using n by (subst bit_length.simps) simp
  have e: "int (bit_length (nat a)) - 1 = int (bit_length (nat a) - 1)" using pos by simp
  have "(of_nat (2 ^ (bit_length (nat a) - 1)) :: rat) \<le> of_nat (nat a)"
    using b(1) by (simp only: of_nat_le_iff)
  then have "power_int 2 (int (bit_length (nat a) - 1)) \<le> (of_int a :: rat)"
    using assms by simp
  then show "power_int 2 (int (bit_length (nat a)) - 1) \<le> (of_int a :: rat)"
    by (simp only: e)
  have "(of_nat (nat a) :: rat) < of_nat (2 ^ bit_length (nat a))"
    using b(2) by (simp only: of_nat_less_iff)
  then show "(of_int a :: rat) < power_int 2 (int (bit_length (nat a)))"
    using assms by simp
qed

lemma floor_log2_bounds:
  assumes "0 < a" "0 < b"
  shows "power_int 2 (floor_log2 a b) * of_int b \<le> (of_int a :: rat)"
    and "(of_int a :: rat) < power_int 2 (floor_log2 a b + 1) * of_int b"
proof -
  define la where "la = int (bit_length (nat a))"
  define lb where "lb = int (bit_length (nat b))"
  define d where "d = la - lb"
  note A = bit_length_rat[OF assms(1), folded la_def]
  note B = bit_length_rat[OF assms(2), folded lb_def]
  have bpos: "(0::rat) < of_int b" using assms by simp
  have up: "(of_int a :: rat) < power_int 2 (d + 1) * of_int b"
  proof -
    have e: "la = (d + 1) + (lb - 1)" by (simp add: d_def)
    have "power_int (2::rat) la = power_int 2 (d + 1) * power_int 2 (lb - 1)"
      by (subst e) (rule pi2_add)
    also have "\<dots> \<le> power_int 2 (d + 1) * of_int b"
      by (rule mult_left_mono[OF B(1)]) (simp add: less_imp_le)
    finally show ?thesis using A(2) by simp
  qed
  have low: "power_int 2 (d - 1) * of_int b \<le> (of_int a :: rat)"
  proof -
    have e: "la - 1 = (d - 1) + lb" by (simp add: d_def)
    have "power_int 2 (d - 1) * of_int b \<le> power_int 2 (d - 1) * power_int (2::rat) lb"
      by (rule mult_left_mono) (use B(2) in \<open>simp_all add: less_imp_le\<close>)
    also have "\<dots> = power_int 2 (la - 1)"
      by (subst e) (rule pi2_add[symmetric])
    finally show ?thesis using A(1) by simp
  qed
  have fl: "floor_log2 a b = (if power_int 2 d * of_int b \<le> (of_int a :: rat) then d else d - 1)"
    unfolding floor_log2_def Let_def la_def[symmetric] lb_def[symmetric] d_def[symmetric]
    using scaled_le_iff[OF assms(2), of d a] by simp
  show "power_int 2 (floor_log2 a b) * of_int b \<le> (of_int a :: rat)"
    using low by (simp add: fl)
  show "(of_int a :: rat) < power_int 2 (floor_log2 a b + 1) * of_int b"
    using up by (auto simp: fl not_le)
qed

lemma rhe_div_nonneg: "0 \<le> n \<Longrightarrow> 0 < d \<Longrightarrow> 0 \<le> rhe_div n d"
  by (simp add: rhe_div_def Let_def pos_imp_zdiv_nonneg_iff)

lemma pi2_nonneg_exp: "0 \<le> e \<Longrightarrow> power_int (2::rat) e = 2 ^ nat e"
  by (simp add: power_int_def)

lemma pi2_neg_exp: "e < 0 \<Longrightarrow> power_int (2::rat) e = 1 / 2 ^ nat (- e)"
  by (simp add: power_int_def field_simps)

lemma mantissa_error:
  fixes a b e :: int
  assumes "0 < a" "0 < b"
  defines "m \<equiv> (if 0 \<le> e then rhe_div a (b * 2 ^ nat e) else rhe_div (a * 2 ^ nat (- e)) b)"
  shows "\<bar>(of_int m :: rat) - of_int a / of_int b / power_int 2 e\<bar> \<le> 1 / 2" and "0 \<le> m"
proof -
  show "0 \<le> m" using assms by (simp add: m_def rhe_div_nonneg)
  show "\<bar>(of_int m :: rat) - of_int a / of_int b / power_int 2 e\<bar> \<le> 1 / 2"
  proof (cases "0 \<le> e")
    case True
    have "0 < b * 2 ^ nat e" using assms(2) by simp
    from rhe_div_error[OF this, of a] True show ?thesis
      by (simp add: m_def pi2_nonneg_exp)
  next
    case False
    then have neg: "e < 0" by simp
    from rhe_div_error[OF assms(2), of "a * 2 ^ nat (- e)"] False show ?thesis
      by (simp add: m_def pi2_neg_exp[OF neg])
  qed
qed

lemma pi2_le_iff: "power_int (2::rat) i \<le> power_int 2 j \<longleftrightarrow> i \<le> j"
proof
  assume h: "power_int (2::rat) i \<le> power_int 2 j"
  show "i \<le> j"
  proof (rule ccontr)
    assume "\<not> i \<le> j"
    then have "j < i" by simp
    then have "power_int (2::rat) j < power_int 2 i"
      by (rule power_int_strict_increasing) simp
    with h show False by simp
  qed
next
  assume "i \<le> j"
  then show "power_int (2::rat) i \<le> power_int 2 j"
    by (rule power_int_increasing) simp
qed

lemma pi2_less_iff: "power_int (2::rat) i < power_int 2 j \<longleftrightarrow> i < j"
  using pi2_le_iff[of j i] by (simp add: not_le[symmetric])

lemma ratio_bounds:
  fixes a b :: int
  assumes "0 < a" "0 < b"
  shows "power_int 2 (floor_log2 a b) \<le> (of_int a / of_int b :: rat)"
    and "(of_int a / of_int b :: rat) < power_int 2 (floor_log2 a b + 1)"
  using floor_log2_bounds[OF assms] assms(2) by (simp_all add: pos_le_divide_eq pos_divide_less_eq)

lemma round_ratio_value:
  fixes a b :: int
  assumes a: "0 < a" and b: "0 < b" and lt: "(of_int a :: rat) / of_int b < 2 ^ 1023"
  defines "e \<equiv> max (floor_log2 a b - 52) (- 1074)"
  shows "\<exists>m. round_ratio a b = Float m e \<and> 0 \<le> m
           \<and> \<bar>(of_int m :: rat) - of_int a / of_int b / power_int 2 e\<bar> \<le> 1 / 2"
proof -
  define m where "m = (if 0 \<le> e then rhe_div a (b * 2 ^ nat e) else rhe_div (a * 2 ^ nat (- e)) b)"
  define x :: rat where "x = of_int a / of_int b"
  have err: "\<bar>of_int m - x / power_int 2 e\<bar> \<le> 1 / 2"
    unfolding m_def x_def by (rule mantissa_error(1)[OF a b])
  have m0: "0 \<le> m"
    unfolding m_def by (rule mantissa_error(2)[OF a b])
  have no: "\<not> (0 \<le> e \<and> 2 ^ 1024 \<le> m * 2 ^ nat e)"
  proof
    assume h: "0 \<le> e \<and> 2 ^ 1024 \<le> m * 2 ^ nat e"
    then have e0: "0 \<le> e" by simp
    have "power_int 2 (floor_log2 a b) \<le> x"
      unfolding x_def by (rule ratio_bounds(1)[OF a b])
    also have "x < power_int 2 1023" using lt by (simp add: x_def)
    finally have "floor_log2 a b < 1023" by (simp only: pi2_less_iff)
    then have "e \<le> 970" by (simp add: e_def)
    then have "power_int (2::rat) e \<le> power_int 2 970" by (simp only: pi2_le_iff)
    then have pe: "power_int (2::rat) e \<le> 2 ^ 970" by simp
    have "of_int m \<le> x / power_int 2 e + 1 / 2" using err by linarith
    then have "of_int m * power_int 2 e \<le> (x / power_int 2 e + 1 / 2) * power_int 2 e"
      by (rule mult_right_mono) simp
    also have "\<dots> = x + power_int 2 e / 2" by (simp add: field_simps)
    also have "\<dots> < 2 ^ 1023 + 2 ^ 970 / 2" using lt pe by (simp add: x_def)
    also have "\<dots> \<le> 2 ^ 1024" by simp
    finally have "of_int m * power_int 2 e < (2::rat) ^ 1024" .
    moreover have "of_int m * power_int (2::rat) e = of_int (m * 2 ^ nat e)"
      using e0 by (simp add: pi2_nonneg_exp)
    ultimately have "(of_int (m * 2 ^ nat e) :: rat) < of_int (2 ^ 1024)" by simp
    then have "m * 2 ^ nat e < 2 ^ 1024" by (simp only: of_int_less_iff)
    with h show False by simp
  qed
  have "round_ratio a b = Float m e"
    using a no unfolding m_def e_def by (simp add: round_ratio_def Let_def)
  with m0 err show ?thesis unfolding x_def by blast
qed

lemma round_ratio_normal:
  fixes a b :: int
  assumes a: "0 < a" and b: "0 < b"
  defines "x \<equiv> (of_int a :: rat) / of_int b"
  assumes hi: "x < 2 ^ 1023" and lo: "1 / 2 ^ 1022 \<le> x"
  shows "\<exists>m e. round_ratio a b = Float m e \<and> 0 \<le> m
           \<and> \<bar>of_int m * power_int 2 e - x\<bar> \<le> x / 2 ^ 53
           \<and> (\<forall>J s. x = of_int J * power_int 2 s \<and> x < power_int 2 (s + 53)
                  \<longrightarrow> of_int m * power_int 2 e = x)"
proof -
  define k where "k = floor_log2 a b"
  have kl: "power_int 2 k \<le> x" and ku: "x < power_int 2 (k + 1)"
    using ratio_bounds[OF a b] by (simp_all add: k_def x_def)
  have "power_int (2::rat) (- 1022) = 1 / 2 ^ 1022"
    using pi2_neg_exp[of "- 1022"] by simp
  then have "power_int (2::rat) (- 1022) \<le> x" using lo by simp
  also note ku
  finally have "- 1022 < k + 1" by (simp only: pi2_less_iff)
  then have k1022: "- 1022 \<le> k" by simp
  define e where "e = k - 52"
  have emax: "max (floor_log2 a b - 52) (- 1074) = e"
    using k1022 by (simp add: e_def k_def)
  from round_ratio_value[OF a b hi[unfolded x_def]] obtain m where
    rr: "round_ratio a b = Float m e" and m0: "0 \<le> m"
    and err: "\<bar>of_int m - x / power_int 2 e\<bar> \<le> 1 / 2"
    unfolding emax x_def by blast
  have "of_int m * power_int 2 e - x = (of_int m - x / power_int 2 e) * power_int 2 e"
    by (simp add: field_simps)
  then have "\<bar>of_int m * power_int 2 e - x\<bar> = \<bar>of_int m - x / power_int 2 e\<bar> * power_int 2 e"
    by (simp add: abs_mult)
  also have "\<dots> \<le> 1 / 2 * power_int 2 e"
    using err by (rule mult_right_mono) simp
  also have "1 / 2 * power_int (2::rat) e = power_int 2 k / 2 ^ 53"
    by (simp add: e_def pi2_diff)
  also have "\<dots> \<le> x / 2 ^ 53"
    using kl by (simp add: divide_right_mono)
  finally have rel: "\<bar>of_int m * power_int 2 e - x\<bar> \<le> x / 2 ^ 53" .
  have ex: "\<forall>J s. x = of_int J * power_int 2 s \<and> x < power_int 2 (s + 53)
                  \<longrightarrow> of_int m * power_int 2 e = x"
  proof (intro allI impI)
    fix J s
    assume h: "x = of_int J * power_int 2 s \<and> x < power_int 2 (s + 53)"
    then have xs: "x = of_int J * power_int 2 s" and xl: "x < power_int 2 (s + 53)"
      by simp_all
    note kl
    also note xl
    finally have "k < s + 53" by (simp only: pi2_less_iff)
    then have se: "0 \<le> s - e" by (simp add: e_def)
    define I where "I = J * 2 ^ nat (s - e)"
    have "x / power_int 2 e = of_int J * (power_int 2 s / power_int 2 e)"
      by (simp add: xs)
    also have "\<dots> = of_int J * power_int 2 (s - e)"
      by (simp only: pi2_diff)
    also have "\<dots> = of_int I"
      using se by (simp add: I_def pi2_nonneg_exp)
    finally have xi: "x / power_int 2 e = of_int I" .
    with err have "\<bar>(of_int m :: rat) - of_int I\<bar> \<le> 1 / 2" by simp
    then have "(of_int \<bar>m - I\<bar> :: rat) < of_int 1" by simp
    then have "\<bar>m - I\<bar> < 1" by (simp only: of_int_less_iff)
    then have "m = I" by simp
    have "x = x / power_int 2 e * power_int 2 e" by simp
    also have "\<dots> = of_int m * power_int 2 e" by (simp only: xi \<open>m = I\<close>)
    finally show "of_int m * power_int 2 e = x" by simp
  qed
  from rr m0 rel ex show ?thesis by blast
qed

lemma round_scaled_normal:
  fixes M E :: int
  assumes M: "0 < M"
  defines "y \<equiv> (of_int M :: rat) * power_int 2 E"
  assumes hi: "y < 2 ^ 1023" and lo: "1 / 2 ^ 1022 \<le> y"
  shows "\<exists>m e. round_scaled M E = Float m e \<and> 0 \<le> m
           \<and> \<bar>of_int m * power_int 2 e - y\<bar> \<le> y / 2 ^ 53
           \<and> (\<forall>J s. y = of_int J * power_int 2 s \<and> y < power_int 2 (s + 53)
                  \<longrightarrow> of_int m * power_int 2 e = y)"
proof (cases "0 \<le> E")
  case True
  have "0 \<le> M * 2 ^ nat E" using M by simp
  then have nn: "\<not> M * 2 ^ nat E < 0" by (simp only: not_less)
  have rs: "round_scaled M E = round_ratio (M * 2 ^ nat E) 1"
    using True by (simp only: round_scaled_def round_signed_def nn if_True if_False)
  have eq: "(of_int (M * 2 ^ nat E) :: rat) / of_int (1::int) = y"
    using True by (simp add: y_def pi2_nonneg_exp)
  have pos: "0 < M * 2 ^ nat E" using M by simp
  show ?thesis
    using round_ratio_normal[OF pos zero_less_one, unfolded eq, OF hi lo]
    by (simp only: rs)
next
  case False
  then have neg: "E < 0" by simp
  have nn: "\<not> M < 0" using M by simp
  have rs: "round_scaled M E = round_ratio M (2 ^ nat (- E))"
    using False by (simp only: round_scaled_def round_signed_def nn if_True if_False)
  have eq: "(of_int M :: rat) / of_int ((2::int) ^ nat (- E)) = y"
    by (simp add: y_def pi2_neg_exp[OF neg])
  have pos: "0 < (2::int) ^ nat (- E)" by simp
  show ?thesis
    using round_ratio_normal[OF M pos, unfolded eq, OF hi lo]
    by (simp only: rs)
qed

lemma int_of_float_floor:
  assumes "0 \<le> m"
  shows "int_of_float (Float m e) = Inr \<lfloor>(of_int m :: rat) * power_int 2 e\<rfloor>"
proof (cases "0 \<le> e")
  case True
  have "(of_int m :: rat) * power_int 2 e = of_int (m * 2 ^ nat e)"
    using True by (simp add: pi2_nonneg_exp)
  then have "\<lfloor>(of_int m :: rat) * power_int 2 e\<rfloor> = m * 2 ^ nat e"
    by (simp only: floor_of_int)
  then show ?thesis using True by simp
next
  case False
  then have neg: "e < 0" by simp
  have "(of_int m :: rat) * power_int 2 e = of_int m / of_int (2 ^ nat (- e))"
    by (simp add: pi2_neg_exp[OF neg])
  then have "\<lfloor>(of_int m :: rat) * power_int 2 e\<rfloor> = m div 2 ^ nat (- e)"
    by (simp only: floor_divide_of_int_eq)
  moreover have "sgn m * (\<bar>m\<bar> div 2 ^ nat (- e)) = m div 2 ^ nat (- e)"
    using assms by (cases "m = 0") (simp_all add: sgn_if)
  ultimately show ?thesis using False by simp
qed

lemmas float_eval = percent_def err_bind_def true_divide_def int_to_float_def
  round_scaled_def round_signed_def round_ratio_def floor_log2_def rhe_div_def
  bit_length.simps float_neg_def Let_def TOTAL_TESTS_def

lemma int_to_float_100: "int_to_float 100 = Inr (Float 7036874417766400 (- 46))"
  by (simp add: float_eval)

lemma percent_0: "percent 0 = Inr 0"
  by (simp add: float_eval)

lemma percent_value:
  fixes n :: int
  assumes n1: "1 \<le> n" and n63: "n < 2 ^ 63"
  defines "x \<equiv> (of_int n :: rat) / 66"
  shows "\<exists>v1 v2. percent n = Inr \<lfloor>v2\<rfloor>
           \<and> \<bar>v1 - x\<bar> \<le> x / 2 ^ 53
           \<and> \<bar>v2 - 100 * v1\<bar> \<le> 100 * v1 / 2 ^ 53
           \<and> (\<forall>J s. x = of_int J * power_int 2 s \<and> x < power_int 2 (s + 53) \<longrightarrow> v1 = x)
           \<and> (\<forall>J s. 100 * v1 = of_int J * power_int 2 s \<and> 100 * v1 < power_int 2 (s + 53)
                  \<longrightarrow> v2 = 100 * v1)"
proof -
  have npos: "0 < n" using n1 by simp
  have xeq: "(of_int n :: rat) / of_int (66::int) = x" by (simp add: x_def)
  have "(of_int n :: rat) < of_int (2 ^ 63)" using n63 by (simp only: of_int_less_iff)
  then have n63r: "(of_int n :: rat) < 2 ^ 63" by simp
  have n1r: "(1::rat) \<le> of_int n" using n1 by simp
  have xhi: "x < 2 ^ 1023" using n63r by (simp add: x_def)
  have xlo: "1 / 2 ^ 1022 \<le> x" using n1r by (simp add: x_def)
  have xpos: "0 < x" using n1r by (simp add: x_def)
  have x63: "x < 2 ^ 63" using n63r by (simp add: x_def)
  have x66: "1 / 66 \<le> x" using n1r by (simp add: x_def)
  from round_ratio_normal[OF npos, of 66, unfolded xeq, OF _ xhi xlo] obtain m1 e1 where
    q: "round_ratio n 66 = Float m1 e1" and m10: "0 \<le> m1"
    and rel1: "\<bar>of_int m1 * power_int 2 e1 - x\<bar> \<le> x / 2 ^ 53"
    and ex1: "\<forall>J s. x = of_int J * power_int 2 s \<and> x < power_int 2 (s + 53)
                  \<longrightarrow> of_int m1 * power_int 2 e1 = x"
    by auto
  define v1 :: rat where "v1 = of_int m1 * power_int 2 e1"
  have rel1': "\<bar>v1 - x\<bar> \<le> x / 2 ^ 53" using rel1 by (simp add: v1_def)
  have "x / 2 ^ 53 \<le> x / 2" using xpos by (simp add: field_simps)
  with rel1' have v1lo: "x / 2 \<le> v1" and v1hi: "v1 \<le> 2 * x" using xpos by linarith+
  have v1pos: "0 < v1" using v1lo xpos by linarith
  have m1pos: "0 < m1"
  proof (rule ccontr)
    assume "\<not> 0 < m1"
    with m10 have "m1 = 0" by simp
    with v1pos show False by (simp add: v1_def)
  qed
  define M where "M = m1 * 7036874417766400"
  define E where "E = e1 + (- 46)"
  have Mpos: "0 < M" using m1pos by (simp add: M_def)
  have "power_int (2::rat) E = power_int 2 e1 / 2 ^ 46"
    unfolding E_def using pi2_diff[of e1 46] by simp
  then have yeq: "(of_int M :: rat) * power_int 2 E = 100 * v1"
    by (simp add: M_def v1_def)
  have yhi: "100 * v1 < 2 ^ 1023" using v1hi x63 by simp
  have ylo: "1 / 2 ^ 1022 \<le> 100 * v1" using v1lo x66 by simp
  from round_scaled_normal[OF Mpos, of E, unfolded yeq, OF yhi ylo] obtain m2 e2 where
    p: "round_scaled M E = Float m2 e2" and m20: "0 \<le> m2"
    and rel2: "\<bar>of_int m2 * power_int 2 e2 - 100 * v1\<bar> \<le> 100 * v1 / 2 ^ 53"
    and ex2: "\<forall>J s. 100 * v1 = of_int J * power_int 2 s \<and> 100 * v1 < power_int 2 (s + 53)
                  \<longrightarrow> of_int m2 * power_int 2 e2 = 100 * v1"
    by auto
  define v2 :: rat where "v2 = of_int m2 * power_int 2 e2"
  have nn: "\<not> n < 0" using n1 by simp
  have td: "true_divide n TOTAL_TESTS = Inr (Float m1 e1)"
    by (simp add: true_divide_def TOTAL_TESTS_def round_signed_def nn q)
  have "percent n = int_of_float (round_scaled M E)"
    by (simp add: percent_def err_bind_def td int_to_float_100 M_def E_def)
  also have "\<dots> = Inr \<lfloor>v2\<rfloor>"
    unfolding p v2_def by (rule int_of_float_floor[OF m20])
  finally have pv: "percent n = Inr \<lfloor>v2\<rfloor>" .
  from pv rel1' rel2 ex1 ex2 show ?thesis
    unfolding v1_def[symmetric] v2_def[symmetric] by blast
qed

lemma percent_total:
  assumes "0 \<le> n" "n < 2 ^ 63"
  shows "\<exists>p. percent n = Inr p"
proof (cases "n = 0")
  case True
  then show ?thesis by (simp add: percent_0)
next
  case False
  with assms have "1 \<le> n" by simp
  from percent_value[OF this assms(2)] show ?thesis by blast
qed

lemma percent_floor:
  fixes n :: int
  assumes n0: "0 \<le> n" and n46: "n \<le> 2 ^ 46"
  shows "percent n = Inr ((100 * n) div 66)"
proof (cases "n = 0")
  case True
  then show ?thesis by (simp add: percent_0)
next
  case False
  with n0 have n1: "1 \<le> n" by simp
  have n63: "n < 2 ^ 63" using n46 by simp
  define x :: rat where "x = of_int n / 66"
  from percent_value[OF n1 n63, folded x_def] obtain v1 v2 where
    pv: "percent n = Inr \<lfloor>v2\<rfloor>"
    and rel1: "\<bar>v1 - x\<bar> \<le> x / 2 ^ 53"
    and rel2: "\<bar>v2 - 100 * v1\<bar> \<le> 100 * v1 / 2 ^ 53"
    and ex1: "\<forall>J s. x = of_int J * power_int 2 s \<and> x < power_int 2 (s + 53) \<longrightarrow> v1 = x"
    and ex2: "\<forall>J s. 100 * v1 = of_int J * power_int 2 s \<and> 100 * v1 < power_int 2 (s + 53)
                  \<longrightarrow> v2 = 100 * v1"
    by blast
  define F where "F = (100 * n) div 66"
  define r where "r = (100 * n) mod 66"
  have "(of_int n :: rat) \<le> of_int (2 ^ 46)" using n46 by (simp only: of_int_le_iff)
  then have n46r: "(of_int n :: rat) \<le> 2 ^ 46" by simp
  have n1r: "(1::rat) \<le> of_int n" using n1 by simp
  have xpos: "0 < x" using n1r by (simp add: x_def)
  have xhi: "x \<le> 2 ^ 46 / 66" using n46r by (simp add: x_def)
  have "66 * F + r = 100 * n" by (simp only: F_def r_def mult_div_mod_eq)
  then have dm: "100 * n = 66 * F + r" by (rule sym)
  note dm
  then have eq: "(of_int (100 * n) :: rat) = of_int (66 * F + r)" by (rule arg_cong)
  have "100 * x = of_int (100 * n) / 66" by (simp add: x_def)
  also have "\<dots> = of_int (66 * F + r) / 66" by (simp only: eq)
  also have "\<dots> = of_int F + of_int r / 66" by (simp add: add_divide_distrib)
  finally have hx: "100 * x = of_int F + of_int r / 66" .
  have "\<lfloor>v2\<rfloor> = F"
  proof (cases "r = 0")
    case True
    define j where "j = 2 * F - 3 * n"
    have j: "n = 33 * j" using dm True by (simp add: j_def)
    have Fj: "F = 50 * j" using dm True j by simp
    have "power_int (2::rat) (- 1) = 1 / 2" using pi2_neg_exp[of "- 1"] by simp
    then have x1: "x = of_int j * power_int 2 (- 1)" by (simp add: x_def j)
    have "x < 2 ^ 52" using xhi by simp
    then have x2: "x < power_int 2 (- 1 + 53)" by simp
    from ex1 x1 x2 have v1x: "v1 = x" by blast
    have y1: "100 * v1 = of_int (50 * j) * power_int 2 0" by (simp add: v1x x_def j)
    have "100 * v1 < 2 ^ 53" using xhi by (simp add: v1x)
    then have y2: "100 * v1 < power_int 2 (0 + 53)" by simp
    from ex2 y1 y2 have "v2 = 100 * v1" by blast
    then have "v2 = of_int F" using y1 Fj by simp
    then show ?thesis by simp
  next
    case False
    have "r = 100 * n - 66 * F" using dm by simp
    then have "even r" by simp
    then obtain k where k: "r = 2 * k" by (rule evenE)
    have "0 \<le> r" "r < 66" by (simp_all add: r_def)
    then have "2 \<le> r" "r \<le> 64" using False k by simp_all
    then have "(of_int 2 :: rat) \<le> of_int r" "(of_int r :: rat) \<le> of_int 64"
      by (simp_all only: of_int_le_iff)
    then have rr: "(2::rat) \<le> of_int r" "(of_int r :: rat) \<le> 64" by simp_all
    define d :: rat where "d = x / 2 ^ 53"
    have d0: "0 \<le> d" using xpos by (simp add: d_def)
    have dhi: "d \<le> 1 / 8448" using xhi by (simp add: d_def)
    have a1: "\<bar>v1 - x\<bar> \<le> d" using rel1 by (simp add: d_def)
    then have "v1 \<le> x + d" by linarith
    then have "100 * v1 / 2 ^ 53 \<le> 100 * (x + d) / 2 ^ 53" by (simp add: divide_right_mono)
    also have "\<dots> = 100 * d + 100 * d / 2 ^ 53" by (simp add: d_def field_simps)
    also have "\<dots> \<le> 100 * d + d" using d0 by (simp add: field_simps)
    finally have "100 * v1 / 2 ^ 53 \<le> 101 * d" by simp
    with rel2 have a2: "\<bar>v2 - 100 * v1\<bar> \<le> 101 * d" by linarith
    from a1 a2 have "\<bar>v2 - 100 * x\<bar> \<le> 201 * d" by linarith
    with dhi have close: "\<bar>v2 - 100 * x\<bar> < 1 / 33" by linarith
    have lo: "of_int F \<le> v2" using close hx rr by linarith
    have hi: "v2 < of_int F + 1" using close hx rr by linarith
    from lo hi show ?thesis by (rule floor_unique)
  qed
  with pv show ?thesis by (simp add: F_def)
qed

lemma percent_41: "percent 41 = Inr 62"
  using percent_floor[of 41] by simp

subsection \<open>Running the combinators\<close>

lemma py_bind_run: "m w = (Inr x, w') \<Longrightarrow> py_bind m k w = k x w'"
  by (simp add: py_bind_def)

lemma py_bind_raise: "m w = (Inl e, w') \<Longrightarrow> py_bind m k w = (Inl e, w')"
  by (simp add: py_bind_def)

lemma py_then_run: "m w = (Inr (), w') \<Longrightarrow> py_then m k w = k w'"
  by (simp add: py_then_def py_bind_def)

lemma py_then_raise: "m w = (Inl e, w') \<Longrightarrow> py_then m k w = (Inl e, w')"
  by (simp add: py_then_def py_bind_def)

lemma wrote_simps [simp]:
  "files (wrote w ls) = files w"
  "encodes (wrote w ls) = encodes w"
  "stdout (wrote w ls) = stdout w @ ls"
  "wrote (wrote w ls) ms = wrote w (ls @ ms)"
  "wrote w [] = w"
  by (simp_all add: wrote_def)

lemma can_encode_wrote [simp]: "can_encode (wrote w ls) s = can_encode w s"
  by (simp add: can_encode_def)

lemma can_encode_append [simp]: "can_encode w (s @ t) \<longleftrightarrow> can_encode w s \<and> can_encode w t"
  by (auto simp add: can_encode_def)

lemma can_encode_all: "\<forall>c. encodes w c \<Longrightarrow> can_encode w s"
  by (simp add: can_encode_def)

lemma print_run: "can_encode w s \<Longrightarrow> print s w = (Inr (), wrote w [s])"
  by (simp add: print_def wrote_def)

lemma print_raise: "\<not> can_encode w s \<Longrightarrow> print s w = (Inl UnicodeEncodeError, w)"
  by (simp add: print_def)

lemma py_for_print:
  "\<forall>s \<in> set ls. can_encode w (f s) \<Longrightarrow> py_for ls (\<lambda>x. print (f x)) w = (Inr (), wrote w (map f ls))"
proof (induction ls arbitrary: w)
  case Nil
  then show ?case by (simp add: py_return_def)
next
  case (Cons x xs)
  have p: "print (f x) w = (Inr (), wrote w [f x])"
    using Cons.prems by (simp add: print_run)
  have "py_for xs (\<lambda>x. print (f x)) (wrote w [f x]) = (Inr (), wrote (wrote w [f x]) (map f xs))"
    using Cons.prems by (intro Cons.IH) simp
  then show ?case by (simp add: py_then_def py_bind_def p)
qed

lemma py_for_print_lines:
  "\<forall>s \<in> set ls. can_encode w s \<Longrightarrow> py_for ls print w = (Inr (), wrote w ls)"
  using py_for_print[of ls w "\<lambda>s. s"] by simp

lemma py_filter_pure:
  assumes "\<And>x. c x w = (Inr (f x), w)"
  shows "py_filter c xs w = (Inr (filter f xs), w)"
proof (induction xs)
  case Nil
  then show ?case by (simp add: py_return_def)
next
  case (Cons x xs)
  then show ?case by (simp add: py_bind_def assms py_return_def)
qed

subsection \<open>What no computation changes\<close>

lemma steadyD:
  assumes "steady m"
  shows "files (snd (m w)) = files w" and "encodes (snd (m w)) = encodes w"
    and "\<exists>ls. stdout (snd (m w)) = stdout w @ ls"
  using assms by (simp_all add: steady_def)

lemma steady_return [simp]: "steady (py_return x)"
  by (simp add: steady_def py_return_def)

lemma steady_raise [simp]: "steady (py_raise e)"
  by (simp add: steady_def py_raise_def)

lemma steady_lift [simp]: "steady (py_lift r)"
  by (simp add: steady_def py_lift_def)

lemma steady_print [simp]: "steady (print s)"
  by (simp add: steady_def print_def)

lemma steady_os [simp]:
  "steady (os_path_exists p)" "steady (os_path_isdir p)" "steady (os_listdir p)"
  "steady (os_path_getmtime p)" "steady (path_glob_json p)" "steady (path_rglob p)"
  "steady (path_is_dir p)" "steady (path_is_file p)" "steady (path_stat_size p)"
  by (simp_all add: steady_def os_path_exists_def os_path_isdir_def os_listdir_def
      os_path_getmtime_def path_glob_json_def path_rglob_def path_is_dir_def path_is_file_def
      path_stat_size_def)

lemma steady_bind [simp]:
  assumes "steady m" and "\<And>x. steady (k x)"
  shows "steady (py_bind m k)"
  unfolding steady_def
proof (intro allI)
  fix w
  obtain r w' where mw: "m w = (r, w')" by (cases "m w")
  from steadyD[OF assms(1), of w] mw obtain ls where
    m: "files w' = files w" "encodes w' = encodes w" "stdout w' = stdout w @ ls"
    by auto
  show "files (snd (py_bind m k w)) = files w \<and> encodes (snd (py_bind m k w)) = encodes w
        \<and> (\<exists>ls. stdout (snd (py_bind m k w)) = stdout w @ ls)"
  proof (cases r)
    case (Inl e)
    then show ?thesis using mw m by (simp add: py_bind_def)
  next
    case (Inr x)
    from steadyD[OF assms(2), of x w'] obtain ms where
      "files (snd (k x w')) = files w'" "encodes (snd (k x w')) = encodes w'"
      "stdout (snd (k x w')) = stdout w' @ ms"
      by auto
    then show ?thesis using mw m Inr by (simp add: py_bind_def)
  qed
qed

lemma steady_then [simp]: "steady m \<Longrightarrow> steady k \<Longrightarrow> steady (py_then m k)"
  by (simp add: py_then_def)

lemma steady_if [simp]: "steady a \<Longrightarrow> steady b \<Longrightarrow> steady (if c then a else b)"
  by simp

lemma steady_filter [simp]: "(\<And>x. steady (c x)) \<Longrightarrow> steady (py_filter c xs)"
  by (induction xs) simp_all

lemma steady_fold [simp]: "(\<And>x a. steady (f x a)) \<Longrightarrow> steady (py_fold f xs acc)"
  by (induction xs arbitrary: acc) simp_all

lemma steady_for [simp]: "(\<And>x. steady (body x)) \<Longrightarrow> steady (py_for xs body)"
  by (induction xs) simp_all

lemma steady_count_tests [simp]: "steady (count_tests dir)"
  by (simp add: count_tests_def)

lemma steady_report_counts [simp]: "steady (report_counts n)"
  by (simp add: report_counts_def)

lemma steady_compare_checkpoint [simp]: "steady (compare_checkpoint n)"
  by (simp add: compare_checkpoint_def)

lemma steady_collect_test_dirs [simp]: "steady (collect_test_dirs dir)"
  by (simp add: collect_test_dirs_def)

lemma steady_show_recent [simp]: "steady (show_recent ev)"
  by (simp add: show_recent_def)

lemma steady_check_test_progress: "steady (check_test_progress ev)"
  by (simp add: check_test_progress_def)

lemma steady_count_project_files [simp]: "steady (count_project_files dir)"
  by (simp add: count_project_files_def)

lemma steady_report_size [simp]: "steady (report_size fs)"
  by (simp add: report_size_def)

lemma steady_report_indexeddb [simp]: "steady (report_indexeddb dir)"
  by (simp add: report_indexeddb_def)

lemma steady_report_storage [simp]: "steady (report_storage dir)"
  by (simp add: report_storage_def)

lemma steady_classify [simp]: "steady (classify n dir)"
  by (simp add: classify_def)

lemma steady_count_projects: "steady (count_projects pe)"
  by (simp add: count_projects_def)

text \<open>
  Claim C9. Whatever the file system, the encoding of standard output and the outcome of the
  run (normal or ended by an exception), the Progress Reporter and the Project-State Counter
  leave the file system as they found it: every operation on it is a read.
\<close>

theorem scripts_only_read:
  "files (snd (check_test_progress ev w)) = files w
   \<and> files (snd (count_projects pe w)) = files w"
  by (simp add: steadyD(1)[OF steady_check_test_progress] steadyD(1)[OF steady_count_projects])

subsection \<open>Texts that every encoding can write\<close>

lemma can_encode_Nil [simp]: "can_encode w []"
  by (simp add: can_encode_def)

lemma can_encode_Cons [simp]:
  "can_encode w (c # s) \<longleftrightarrow> (c < 128 \<or> encodes w c) \<and> can_encode w s"
  by (simp add: can_encode_def)

lemma can_encode_replicate [simp]: "c < 128 \<Longrightarrow> can_encode w (replicate n c)"
  by (simp add: can_encode_def)

lemma digits_ascii: "c \<in> set (digits n) \<Longrightarrow> 48 \<le> c \<and> c < 58"
proof (induction n rule: digits.induct)
  case (1 n)
  show ?case
  proof (cases "n < 10")
    case True
    then show ?thesis using "1.prems" by (simp add: digits.simps[of n])
  next
    case False
    then have "c \<in> set (digits (n div 10)) \<or> c = 48 + n mod 10"
      using "1.prems" by (auto simp add: digits.simps[of n])
    then show ?thesis
    proof
      assume "c \<in> set (digits (n div 10))"
      then show ?thesis using False by (intro "1.IH") simp_all
    next
      assume "c = 48 + n mod 10"
      then show ?thesis by simp
    qed
  qed
qed

lemma digits_not_Nil [simp]: "digits n \<noteq> []"
  by (simp add: digits.simps[of n])

lemma can_encode_digits [simp]: "can_encode w (digits n)"
  using digits_ascii[of _ n] by (fastforce simp add: can_encode_def)

lemma can_encode_str [simp]: "can_encode w (str i)"
  by (simp add: str_def)

lemma can_encode_take: "can_encode w s \<Longrightarrow> can_encode w (take n s)"
  by (auto simp add: can_encode_def dest: in_set_takeD)

lemma can_encode_tests_completed [simp]: "can_encode w (tests_completed_msg n p)"
  by (simp add: tests_completed_msg_def u_def)

lemma can_encode_CHECKPOINT_TIME [simp]: "can_encode w CHECKPOINT_TIME"
  by (simp add: CHECKPOINT_TIME_def u_def)

subsection \<open>Reading a directory\<close>

lemma lookup_append:
  "lookup n (p @ q) = (case lookup n p of None \<Rightarrow> None | Some m \<Rightarrow> lookup m q)"
  by (induction n p rule: lookup.induct) (auto split: option.splits)

lemma lookup_child:
  "lookup r dir = Some (Dir t es) \<Longrightarrow> lookup r (dir @ [d]) = map_of es d"
  by (simp add: lookup_append split: option.splits)

lemma exists_run: "os_path_exists p w = (Inr (lookup (files w) p \<noteq> None), w)"
  by (simp add: os_path_exists_def)

lemma isdir_child:
  assumes "lookup (files w) dir = Some (Dir t es)"
  shows "os_path_isdir (dir @ [d]) w =
     (Inr (case map_of es d of Some n \<Rightarrow> is_dir n | None \<Rightarrow> False), w)"
  by (simp add: os_path_isdir_def lookup_child[OF assms])

lemma getmtime_child:
  assumes "lookup (files w) dir = Some (Dir t es)"
  shows "os_path_getmtime (dir @ [d]) w =
     (case map_of es d of Some n \<Rightarrow> Inr (st_mtime n) | None \<Rightarrow> Inl FileNotFoundError, w)"
  by (simp add: os_path_getmtime_def lookup_child[OF assms])

lemma listdir_dir:
  "lookup (files w) dir = Some (Dir t es) \<Longrightarrow> os_listdir dir w = (Inr (map fst es), w)"
  by (simp add: os_listdir_def)

lemma filter_names:
  assumes "distinct (map fst es)"
  shows "filter (\<lambda>d. case map_of es d of Some n \<Rightarrow> P n | None \<Rightarrow> False) (map fst es)
         = map fst (filter (\<lambda>e. P (snd e)) es)"
proof -
  have "\<And>e. e \<in> set es \<Longrightarrow> map_of es (fst e) = Some (snd e)"
    using assms by simp
  then show ?thesis
    by (simp add: filter_map o_def cong: filter_cong)
qed

lemma count_tests_run:
  assumes "lookup (files w) dir = Some (Dir t es)" and "distinct (map fst es)"
  shows "count_tests dir w = (Inr (int (length (filter (\<lambda>e. is_dir (snd e)) es))), w)"
proof -
  have "py_filter (\<lambda>d. os_path_isdir (dir @ [d])) (map fst es) w
        = (Inr (filter (\<lambda>d. case map_of es d of Some n \<Rightarrow> is_dir n | None \<Rightarrow> False)
                  (map fst es)), w)"
    by (rule py_filter_pure) (rule isdir_child[OF assms(1)])
  then show ?thesis
    by (simp add: count_tests_def py_bind_def py_return_def listdir_dir[OF assms(1)]
        filter_names[OF assms(2)])
qed

lemma py_fold_pure:
  assumes "\<And>x a. f x a w = (Inr (g x a), w)"
  shows "py_fold f xs acc w = (Inr (fold g xs acc), w)"
proof (induction xs arbitrary: acc)
  case Nil
  then show ?case by (simp add: py_return_def)
next
  case (Cons x xs)
  then show ?case by (simp add: py_bind_def assms)
qed

lemma collect_step:
  assumes dir: "lookup (files w) dir = Some (Dir t es)"
  shows "py_bind (os_path_isdir (dir @ [d])) (\<lambda>b.
        if b then py_bind (os_path_getmtime (dir @ [d])) (\<lambda>mtime.
                  py_return (test_dirs @ [(d, mtime)]))
        else py_return test_dirs) w
     = (Inr (case map_of es d of
               Some n \<Rightarrow> if is_dir n then test_dirs @ [(d, st_mtime n)] else test_dirs
             | None \<Rightarrow> test_dirs), w)"
  by (simp add: py_bind_def py_return_def isdir_child[OF dir] getmtime_child[OF dir]
      split: option.splits)

lemma collect_fold:
  assumes sub: "set xs \<subseteq> set es" and dist: "distinct (map fst es)"
  shows "fold (\<lambda>d test_dirs. case map_of es d of
               Some n \<Rightarrow> if is_dir n then test_dirs @ [(d, st_mtime n)] else test_dirs
             | None \<Rightarrow> test_dirs) (map fst xs) acc
     = acc @ map (\<lambda>e. (fst e, st_mtime (snd e))) (filter (\<lambda>e. is_dir (snd e)) xs)"
  using sub
proof (induction xs arbitrary: acc)
  case Nil
  then show ?case by simp
next
  case (Cons e xs)
  then have "e \<in> set es" by simp
  then have m: "map_of es (fst e) = Some (snd e)" using dist by simp
  have sub': "set xs \<subseteq> set es" using Cons.prems by simp
  show ?case
    by (simp add: m Cons.IH[OF sub'])
qed

lemma collect_test_dirs_run:
  assumes "lookup (files w) dir = Some (Dir t es)" and "distinct (map fst es)"
  shows "collect_test_dirs dir w
     = (Inr (map (\<lambda>e. (fst e, st_mtime (snd e))) (filter (\<lambda>e. is_dir (snd e)) es)), w)"
proof -
  have "py_fold (\<lambda>d test_dirs.
        py_bind (os_path_isdir (dir @ [d])) (\<lambda>b.
        if b then py_bind (os_path_getmtime (dir @ [d])) (\<lambda>mtime.
                  py_return (test_dirs @ [(d, mtime)]))
        else py_return test_dirs)) (map fst es) [] w
     = (Inr (fold (\<lambda>d test_dirs. case map_of es d of
               Some n \<Rightarrow> if is_dir n then test_dirs @ [(d, st_mtime n)] else test_dirs
             | None \<Rightarrow> test_dirs) (map fst es) []), w)"
    by (rule py_fold_pure) (rule collect_step[OF assms(1)])
  then show ?thesis
    unfolding collect_test_dirs_def
    by (simp add: py_bind_run[of "os_listdir dir" w, OF listdir_dir[OF assms(1)]]
        collect_fold[OF subset_refl assms(2)])
qed

subsection \<open>The blocks of the Progress Reporter\<close>

lemma report_counts_run:
  "percent n = Inr p \<Longrightarrow>
   report_counts n w = (Inr (), wrote w
     [tests_completed_msg n p,
      u ''Checkpoint Count: '' @ str CHECKPOINT_COUNT @ u ''/'' @ str TOTAL_TESTS @ u '' (61%)'',
      replicate 60 45])"
  by (simp add: report_counts_def py_bind_def py_then_def py_lift_def print_run u_def)

lemma report_counts_raise:
  "percent n = Inl e \<Longrightarrow> report_counts n w = (Inl e, w)"
  by (simp add: report_counts_def py_bind_def py_lift_def)

lemma compare_checkpoint_run:
  assumes "\<forall>c. encodes w c"
  shows "compare_checkpoint n w = (Inr (), wrote w
     (if n > 40 then [progress_msg (n - 40), remaining_msg (66 - n)]
      else if n = 40 then [stalled_msg] else [decreased_msg]))"
  by (simp add: compare_checkpoint_def CHECKPOINT_COUNT_def TOTAL_TESTS_def py_then_def
      py_bind_def print_run can_encode_all[OF assms])

lemma show_recent_run:
  assumes u: "\<forall>c. encodes w c"
    and dir: "lookup (files w) (results_dir ev) = Some (Dir t es)"
    and dist: "distinct (map fst es)"
  shows "show_recent ev w = (Inr (), wrote w
     ([[10] @ replicate 60 61, u ''Most Recent Test Results (last 5):'', replicate 60 61]
      @ map (recent_msg (time_str ev))
          (enumerate_from 1 (take 5 (sort_recent
             (map (\<lambda>e. (fst e, st_mtime (snd e))) (filter (\<lambda>e. is_dir (snd e)) es)))))))"
  by (simp add: show_recent_def py_then_def py_bind_def print_run can_encode_all[OF u]
      collect_test_dirs_run[where t = t and es = es, OF _ dist] dir py_for_print)

subsection \<open>The Progress Reporter as a whole\<close>

lemma check_test_progress_run:
  assumes u: "\<forall>c. encodes w c"
    and dir: "lookup (files w) (results_dir ev) = Some (Dir t es)"
    and dist: "distinct (map fst es)"
    and n: "n = int (length (filter (\<lambda>e. is_dir (snd e)) es))"
    and pc: "percent n = Inr p"
  shows "check_test_progress ev w = (Inr (), wrote w
     ([u ''Current Time: '' @ current_time ev,
       u ''Checkpoint Time: '' @ CHECKPOINT_TIME,
       replicate 60 45,
       tests_completed_msg n p,
       u ''Checkpoint Count: '' @ str CHECKPOINT_COUNT @ u ''/'' @ str TOTAL_TESTS @ u '' (61%)'',
       replicate 60 45]
      @ (if n > 40 then [progress_msg (n - 40), remaining_msg (66 - n)]
         else if n = 40 then [stalled_msg] else [decreased_msg])
      @ [[10] @ replicate 60 61, u ''Most Recent Test Results (last 5):'', replicate 60 61]
      @ map (recent_msg (time_str ev))
          (enumerate_from 1 (take 5 (sort_recent
             (map (\<lambda>e. (fst e, st_mtime (snd e))) (filter (\<lambda>e. is_dir (snd e)) es)))))
      @ [[10] @ replicate 60 61]))"
  by (simp add: check_test_progress_def py_then_def py_bind_def print_run exists_run dir
      count_tests_run[where t = t and es = es, OF _ dist] n[symmetric]
      report_counts_run[OF pc] compare_checkpoint_run u
      show_recent_run[where t = t and es = es, OF _ _ dist] can_encode_all[OF u])

lemma check_test_progress_missing:
  assumes u: "\<forall>c. encodes w c"
    and dir: "lookup (files w) (results_dir ev) = None"
  shows "check_test_progress ev w = (Inr (), wrote w
     [u ''Current Time: '' @ current_time ev,
      u ''Checkpoint Time: '' @ CHECKPOINT_TIME,
      replicate 60 45,
      not_found_msg ev,
      [10] @ replicate 60 61])"
  by (simp add: check_test_progress_def py_then_def py_bind_def print_run exists_run dir
      can_encode_all[OF u])

lemma check_test_progress_prefix:
  assumes t: "can_encode w (current_time ev)"
    and dir: "lookup (files w) (results_dir ev) = Some (Dir t es)"
    and dist: "distinct (map fst es)"
    and n: "n = int (length (filter (\<lambda>e. is_dir (snd e)) es))"
    and pc: "percent n = Inr p"
  shows "\<exists>ls. stdout (snd (check_test_progress ev w)) = stdout w @
     [u ''Current Time: '' @ current_time ev,
      u ''Checkpoint Time: '' @ CHECKPOINT_TIME,
      replicate 60 45,
      tests_completed_msg n p,
      u ''Checkpoint Count: '' @ str CHECKPOINT_COUNT @ u ''/'' @ str TOTAL_TESTS @ u '' (61%)'',
      replicate 60 45] @ ls"
proof -
  let ?rest = "py_then (py_then (compare_checkpoint n) (show_recent ev))
                 (print ([10] @ replicate 60 61))"
  let ?w = "wrote w [u ''Current Time: '' @ current_time ev,
      u ''Checkpoint Time: '' @ CHECKPOINT_TIME,
      replicate 60 45,
      tests_completed_msg n p,
      u ''Checkpoint Count: '' @ str CHECKPOINT_COUNT @ u ''/'' @ str TOTAL_TESTS @ u '' (61%)'',
      replicate 60 45]"
  have run: "check_test_progress ev w = ?rest ?w"
    by (simp add: check_test_progress_def py_then_def py_bind_def print_run exists_run dir
      count_tests_run[where t = t and es = es, OF _ dist] n[symmetric]
      report_counts_run[OF pc] t u_def)
  have "steady ?rest" by simp
  from steadyD(3)[OF this, of ?w] obtain ls where
    "stdout (snd (?rest ?w)) = stdout ?w @ ls" by blast
  then have "stdout (snd (check_test_progress ev w)) = stdout w @
     [u ''Current Time: '' @ current_time ev,
      u ''Checkpoint Time: '' @ CHECKPOINT_TIME,
      replicate 60 45,
      tests_completed_msg n p,
      u ''Checkpoint Count: '' @ str CHECKPOINT_COUNT @ u ''/'' @ str TOTAL_TESTS @ u '' (61%)'',
      replicate 60 45] @ ls"
    by (simp only: run wrote_simps append_assoc)
  then show ?thesis by (rule exI[where x = ls])
qed

subsection \<open>A standard output that cannot write the symbols\<close>

lemma compare_checkpoint_raise:
  assumes "\<forall>c. \<not> encodes w c"
  shows "compare_checkpoint n w = (Inl UnicodeEncodeError, w)"
  using assms
  by (simp add: compare_checkpoint_def py_then_def py_bind_def print_def progress_msg_def
      stalled_msg_def decreased_msg_def)

lemma check_test_progress_ascii:
  assumes a: "\<forall>c. \<not> encodes w c"
    and t: "can_encode w (current_time ev)"
    and dir: "lookup (files w) (results_dir ev) = Some (Dir t es)"
    and dist: "distinct (map fst es)"
    and n: "n = int (length (filter (\<lambda>e. is_dir (snd e)) es))"
    and pc: "percent n = Inr p"
  shows "check_test_progress ev w = (Inl UnicodeEncodeError, wrote w
     [u ''Current Time: '' @ current_time ev,
      u ''Checkpoint Time: '' @ CHECKPOINT_TIME,
      replicate 60 45,
      tests_completed_msg n p,
      u ''Checkpoint Count: '' @ str CHECKPOINT_COUNT @ u ''/'' @ str TOTAL_TESTS @ u '' (61%)'',
      replicate 60 45])"
  by (simp add: check_test_progress_def py_then_def py_bind_def print_run exists_run dir
      count_tests_run[where t = t and es = es, OF _ dist] n[symmetric]
      report_counts_run[OF pc] t u_def compare_checkpoint_raise a)

lemma check_test_progress_missing_ascii:
  assumes a: "\<forall>c. \<not> encodes w c"
    and t: "can_encode w (current_time ev)"
    and dir: "lookup (files w) (results_dir ev) = None"
  shows "check_test_progress ev w = (Inl UnicodeEncodeError, wrote w
     [u ''Current Time: '' @ current_time ev,
      u ''Checkpoint Time: '' @ CHECKPOINT_TIME,
      replicate 60 45])"
  using a
  by (simp add: check_test_progress_def py_then_def py_bind_def print_run print_raise exists_run
      dir t u_def not_found_msg_def)

subsection \<open>The examples\<close>

lemma lookup_numbered: "lookup (numbered_dirs k) [u ''r''] = Some (Dir 9 (numbered_entries k))"
  by (simp add: numbered_dirs_def)

lemma count_numbered:
  "length (filter (\<lambda>e. is_dir (snd e)) (numbered_entries k)) = k"
  by (simp add: numbered_entries_def filter_map o_def)

lemma length_numbered [simp]: "length (numbered_entries k) = k"
  by (simp add: numbered_entries_def)

lemma distinct_numbered_45: "distinct (map fst (numbered_entries 45))"
  by (simp add: numbered_entries_def upt_rec str_def digits.simps)

lemma distinct_numbered_41: "distinct (map fst (numbered_entries 41))"
  by (simp add: numbered_entries_def upt_rec str_def digits.simps)

lemma distinct_numbered_70: "distinct (map fst (numbered_entries 70))"
  by (simp add: numbered_entries_def upt_rec str_def digits.simps)

lemma lookup_example: "lookup example_tree [u ''r''] = Some (Dir 9
     [(u ''a'', Dir 1 [(u ''x'', Dir 5 [])]), (u ''f'', File 3 2), (u ''b'', Dir 2 [])])"
  by (simp add: example_tree_def u_def)

lemma can_encode_example_time [simp]: "can_encode w (current_time example_env)"
  by (simp add: example_env_def u_def)

lemma example_env_simps [simp]:
  "results_dir example_env = [u ''r'']"
  "current_time example_env = u ''2025-10-23 16:00:00''"
  "results_dir_str example_env = u ''/r''"
  "time_str example_env = (\<lambda>t. str \<lfloor>t\<rfloor>)"
  by (simp_all add: example_env_def)

lemma world_simps [simp]:
  "files (utf8_world fs) = fs" "stdout (utf8_world fs) = []" "encodes (utf8_world fs) c"
  "files (ascii_world fs) = fs" "stdout (ascii_world fs) = []" "\<not> encodes (ascii_world fs) c"
  by (simp_all add: utf8_world_def ascii_world_def)

subsection \<open>The count and the percentage\<close>

lemma subdirs_bound:
  "int (length es) < 2 ^ 63 \<Longrightarrow> int (length (filter P es)) < 2 ^ 63"
  using length_filter_le[of P es] by linarith






subsection \<open>The comparison with the checkpoint\<close>

lemma hd_digits: "48 \<le> hd (digits n) \<and> hd (digits n) < 58"
  using digits_ascii[of "hd (digits n)" n] by simp

lemma enumerate_from_least:
  "(i, x) \<in> set (enumerate_from k xs) \<Longrightarrow> k \<le> i"
  by (induction xs arbitrary: k) force+

lemma recent_lines_head:
  assumes "l \<in> set (map (recent_msg fmt) (enumerate_from 1 rows))"
  shows "l \<noteq> [] \<and> 48 \<le> hd l \<and> hd l < 58"
proof -
  from assms obtain i name mtime where
    row: "(i, name, mtime) \<in> set (enumerate_from 1 rows)"
    and l: "l = recent_msg fmt (i, name, mtime)"
    by auto
  from enumerate_from_least[OF row] have "1 \<le> i" .
  then have "l = digits (nat i) @ (u ''. ['' @ fmt mtime @ u ''] '' @ take 70 name)"
    by (simp add: l recent_msg_def str_def)
  then show ?thesis using hd_digits[of "nat i"] by simp
qed




subsection \<open>Counts above the total\<close>




subsection \<open>The most recent results\<close>

lemma set_sort_recent [simp]: "set (sort_recent xs) = set xs"
  by (simp add: sort_recent_def)

lemma length_sort_recent [simp]: "length (sort_recent xs) = length xs"
  by (simp add: sort_recent_def)

lemma sort_recent_descending:
  assumes "distinct (map snd xs)"
  shows "sorted_wrt (\<lambda>a b. snd b < snd a) (sort_recent xs)"
proof -
  let ?s = "sort_key snd (rev xs)"
  have "distinct (map snd (rev xs))" using assms by (simp add: rev_map[symmetric])
  then have "distinct (map snd ?s)" by (simp add: distinct_map)
  moreover have "sorted (map snd ?s)" by (rule sorted_sort_key)
  ultimately have "sorted_wrt (<) (map snd ?s)" by (simp only: strict_sorted_iff)
  then have "sorted_wrt (\<lambda>a b. snd a < snd b) ?s" by (simp only: sorted_wrt_map)
  then show ?thesis by (simp add: sort_recent_def sorted_wrt_rev)
qed

lemma top_five_most_recent:
  assumes "sorted_wrt (\<lambda>a b. snd b < snd a) xs" and "x \<in> set xs" and "x \<notin> set (take k xs)"
    and "r \<in> set (take k xs)"
  shows "snd x < snd r"
proof -
  from assms(1) have "sorted_wrt (\<lambda>a b. snd b < snd a) (take k xs @ drop k xs)" by simp
  then have "\<forall>a \<in> set (take k xs). \<forall>b \<in> set (drop k xs). snd b < snd a"
    unfolding sorted_wrt_append by blast
  moreover have "x \<in> set (take k xs) \<union> set (drop k xs)"
    using assms(2) by (simp only: set_append[symmetric] append_take_drop_id)
  then have "x \<in> set (drop k xs)" using assms(3) by simp
  ultimately show ?thesis using assms(4) by blast
qed


lemma recent_entries:
  "[(u ''xxxxxxxxxxxxxxxxxxxxxxxxxxxxxxxxxxxxxxxxxxxxxxxxxxxxxxxxxxxxxxxxxxxxxxxxxxx'',
     Dir 100 []), (u ''notes.txt'', File 3 50)] @ numbered_entries 6
   = [(u ''xxxxxxxxxxxxxxxxxxxxxxxxxxxxxxxxxxxxxxxxxxxxxxxxxxxxxxxxxxxxxxxxxxxxxxxxxxx'',
       Dir 100 []), (u ''notes.txt'', File 3 50),
      (u ''0'', Dir 0 []), (u ''1'', Dir 1 []), (u ''2'', Dir 2 []), (u ''3'', Dir 3 []),
      (u ''4'', Dir 4 []), (u ''5'', Dir 5 [])]"
  by (simp add: numbered_entries_def upt_rec str_def digits.simps u_def)

lemma lookup_recent: "lookup recent_tree [u ''r''] = Some (Dir 9
    [(u ''xxxxxxxxxxxxxxxxxxxxxxxxxxxxxxxxxxxxxxxxxxxxxxxxxxxxxxxxxxxxxxxxxxxxxxxxxxx'',
       Dir 100 []), (u ''notes.txt'', File 3 50),
      (u ''0'', Dir 0 []), (u ''1'', Dir 1 []), (u ''2'', Dir 2 []), (u ''3'', Dir 3 []),
      (u ''4'', Dir 4 []), (u ''5'', Dir 5 [])])"
  unfolding recent_tree_def recent_entries by simp



end
